theory Spec2Isabelle
  imports Main "HOL-Library.Word"
begin

section \<open>The current-user resolver of the HBase native client\<close>

text \<open>
  The source is \<^verbatim>\<open>hbase-native-client/utils/user-util.cc\<close>: the class
  \<^verbatim>\<open>UserUtil\<close> with the accessor \<^verbatim>\<open>user_name()\<close> and the resolution step
  \<^verbatim>\<open>compute_user_name()\<close>. The embedding is sequential: one call runs to its end
  before the next one starts, so the mutex \<^verbatim>\<open>m_\<close> is free at every call. What a
  call does to the outside (taking and releasing the mutex, asking the operating system)
  is recorded as a list of events, in the order of the source's statements.
\<close>

subsection \<open>The operating system, as the code sees it\<close>

type_synonym uid_t = "32 word"

text \<open>
  \<^verbatim>\<open>struct passwd\<close> of \<^verbatim>\<open>pwd.h\<close>. The code reads the field \<^verbatim>\<open>pw_name\<close> only, a
  \<^verbatim>\<open>char *\<close> that may be null: \<open>None\<close> is the null pointer, \<open>Some s\<close> points to the
  C string \<open>s\<close>.
\<close>

record passwd =
  pw_name :: "string option"
  pw_uid :: uid_t

text \<open>
  The process and the user database are parameters of the model, since \<^verbatim>\<open>unistd.h\<close>
  and \<^verbatim>\<open>pwd.h\<close> belong to the platform. A process has a real and an effective user
  id; POSIX \<^verbatim>\<open>getuid()\<close> returns the real one and \<^verbatim>\<open>geteuid()\<close> the effective one.
  \<^verbatim>\<open>getpwuid(uid)\<close> returns a pointer to the entry of \<open>uid\<close> or null (\<open>None\<close>) when
  there is no entry or the lookup fails.
\<close>

record os_env =
  real_uid :: uid_t
  effective_uid :: uid_t
  passwd_db :: "uid_t \<Rightarrow> passwd option"

definition getuid :: "os_env \<Rightarrow> uid_t" where
  "getuid os = real_uid os"

definition geteuid :: "os_env \<Rightarrow> uid_t" where
  "geteuid os = effective_uid os"

definition getpwuid :: "os_env \<Rightarrow> uid_t \<Rightarrow> passwd option" where
  "getpwuid os uid = passwd_db os uid"

subsection \<open>The resolver's state and what a call does\<close>

text \<open>
  The data members of \<^verbatim>\<open>UserUtil\<close> that the two functions read and write:
  \<open>user_name_str\<close> is the member \<^verbatim>\<open>user_name_\<close> and \<open>init_flag\<close> the member
  \<^verbatim>\<open>init_\<close> (a name cannot end with an underscore here). The
  mutex \<^verbatim>\<open>m_\<close> has no field: it is free between sequential calls, and taking and
  releasing it are the events \<open>Lock\<close> and \<open>Unlock\<close>.
\<close>

record UserUtil =
  user_name_str :: string
  init_flag :: bool

datatype event = Lock | Unlock | Getuid | Getpwuid uid_t

text \<open>
  \<^verbatim>\<open>compute_user_name\<close>: the \<^verbatim>\<open>lock_guard\<close> takes the mutex on entry and releases
  it on every way out; under it the flag is tested again, and only when it is still
  false the operating system is asked. The state changes only when the entry and its
  name are both non-null.
\<close>

definition compute_user_name :: "os_env \<Rightarrow> UserUtil \<Rightarrow> UserUtil \<times> event list" where
  "compute_user_name os u =
     (if init_flag u then (u, [Lock, Unlock])
      else
        (let uid = getuid os;
             passwd = getpwuid os uid;
             tr = [Lock, Getuid, Getpwuid uid, Unlock]
         in case passwd of
              None \<Rightarrow> (u, tr)
            | Some p \<Rightarrow>
                (case pw_name p of
                   None \<Rightarrow> (u, tr)
                 | Some n \<Rightarrow> (u\<lparr>user_name_str := n, init_flag := True\<rparr>, tr))))"

text \<open>
  \<^verbatim>\<open>user_name\<close>: the result, the state after the call and the events of the call.
\<close>

definition user_name :: "os_env \<Rightarrow> UserUtil \<Rightarrow> string \<times> UserUtil \<times> event list" where
  "user_name os u =
     (if \<not> init_flag u
      then (let (u', tr) = compute_user_name os u in (user_name_str u', u', tr))
      else (user_name_str u, u, []))"

text \<open>
  Modelled from the spec: the class declaration (\<^verbatim>\<open>utils/user-util.h\<close>), which gives
  the members their values at construction, is not among the sources. The spec's state
  starts with an empty cached name and \<open>initialized\<close> false.
\<close>

definition UserUtil_init :: UserUtil where
  "UserUtil_init = \<lparr>user_name_str = [], init_flag = False\<rparr>"

subsection \<open>Reading a call's outcome\<close>

abbreviation result_of :: "'r \<times> UserUtil \<times> event list \<Rightarrow> 'r" where
  "result_of c \<equiv> fst c"

abbreviation state_of :: "'r \<times> UserUtil \<times> event list \<Rightarrow> UserUtil" where
  "state_of c \<equiv> fst (snd c)"

abbreviation events_of :: "'r \<times> UserUtil \<times> event list \<Rightarrow> event list" where
  "events_of c \<equiv> snd (snd c)"

text \<open>The user ids handed to \<^verbatim>\<open>getpwuid\<close> in a trace, in order.\<close>

fun lookups :: "event list \<Rightarrow> uid_t list" where
  "lookups [] = []"
| "lookups (Getpwuid uid # tr) = uid # lookups tr"
| "lookups (Lock # tr) = lookups tr"
| "lookups (Unlock # tr) = lookups tr"
| "lookups (Getuid # tr) = lookups tr"

text \<open>
  A trace is well locked when the mutex is taken only while free, released only while
  held, every call to the operating system happens while it is held, and it is free at
  the end. The flag says whether the mutex is held before the rest of the trace.
\<close>

fun locked_from :: "bool \<Rightarrow> event list \<Rightarrow> bool" where
  "locked_from held [] = (\<not> held)"
| "locked_from held (Lock # tr) = (\<not> held \<and> locked_from True tr)"
| "locked_from held (Unlock # tr) = (held \<and> locked_from False tr)"
| "locked_from held (Getuid # tr) = (held \<and> locked_from held tr)"
| "locked_from held (Getpwuid uid # tr) = (held \<and> locked_from held tr)"

definition under_lock :: "event list \<Rightarrow> bool" where
  "under_lock tr = locked_from False tr"

text \<open>
  What one resolution attempt finds in the environment \<open>os\<close>: the name when
  \<^verbatim>\<open>getpwuid(getuid())\<close> gives an entry with a non-null name, \<open>None\<close> otherwise.
  This is vocabulary for the statements below; the code is \<open>compute_user_name\<close>.
\<close>

definition lookup_result :: "os_env \<Rightarrow> string option" where
  "lookup_result os =
     (case getpwuid os (getuid os) of None \<Rightarrow> None | Some p \<Rightarrow> pw_name p)"

subsection \<open>Calls in sequence\<close>

text \<open>
  A sequential caller: one call of \<open>user_name\<close> per element of the list, each in the
  environment the operating system offers at that moment (the user database may change
  between two calls). It collects the results and the events and returns the last state.
\<close>

fun run :: "os_env list \<Rightarrow> UserUtil \<Rightarrow> string list \<times> UserUtil \<times> event list" where
  "run [] u = ([], u, [])"
| "run (os # rest) u =
     (let (r, u', tr) = user_name os u;
          (rs, u'', tr') = run rest u'
      in (r # rs, u'', tr @ tr'))"

text \<open>The number of calls of a run that change the resolver's state.\<close>

fun mutations :: "os_env list \<Rightarrow> UserUtil \<Rightarrow> nat" where
  "mutations [] u = 0"
| "mutations (os # rest) u =
     (let u' = state_of (user_name os u)
      in (if u' \<noteq> u then 1 else 0) + mutations rest u')"

subsection \<open>Concrete environments\<close>

text \<open>A process of user 1000, known to the user database as \<open>alice\<close>.\<close>

definition os_alice :: os_env where
  "os_alice = \<lparr>real_uid = 1000, effective_uid = 1000,
     passwd_db = (\<lambda>uid. if uid = 1000 then Some \<lparr>pw_name = Some ''alice'', pw_uid = 1000\<rparr>
                         else None)\<rparr>"

text \<open>A set-user-id program: started by user 1000, running with the rights of user 0.\<close>

definition os_setuid :: os_env where
  "os_setuid = \<lparr>real_uid = 1000, effective_uid = 0,
     passwd_db = (\<lambda>uid. if uid = 0 then Some \<lparr>pw_name = Some ''root'', pw_uid = 0\<rparr>
                         else if uid = 1000 then Some \<lparr>pw_name = Some ''alice'', pw_uid = 1000\<rparr>
                         else None)\<rparr>"

text \<open>The user database has no entry for the process's user, or cannot be read.\<close>

definition os_down :: os_env where
  "os_down = \<lparr>real_uid = 1000, effective_uid = 1000, passwd_db = (\<lambda>uid. None)\<rparr>"

text \<open>An entry whose name pointer is null, and one whose name is the empty string.\<close>

definition os_noname :: os_env where
  "os_noname = \<lparr>real_uid = 1000, effective_uid = 1000,
     passwd_db = (\<lambda>uid. Some \<lparr>pw_name = None, pw_uid = uid\<rparr>)\<rparr>"

definition os_blank :: os_env where
  "os_blank = \<lparr>real_uid = 1000, effective_uid = 1000,
     passwd_db = (\<lambda>uid. Some \<lparr>pw_name = Some [], pw_uid = uid\<rparr>)\<rparr>"

section \<open>One call\<close>

lemma compute_user_name_init:
  "init_flag u \<Longrightarrow> compute_user_name os u = (u, [Lock, Unlock])"
  by (simp add: compute_user_name_def)

lemma compute_user_name_fail:
  "\<not> init_flag u \<Longrightarrow> lookup_result os = None \<Longrightarrow>
   compute_user_name os u = (u, [Lock, Getuid, Getpwuid (getuid os), Unlock])"
  by (simp add: compute_user_name_def lookup_result_def split: option.splits)

lemma compute_user_name_success:
  "\<not> init_flag u \<Longrightarrow> lookup_result os = Some n \<Longrightarrow>
   compute_user_name os u =
     (u\<lparr>user_name_str := n, init_flag := True\<rparr>, [Lock, Getuid, Getpwuid (getuid os), Unlock])"
  by (simp add: compute_user_name_def lookup_result_def split: option.splits)

lemma user_name_init:
  "init_flag u \<Longrightarrow> user_name os u = (user_name_str u, u, [])"
  by (simp add: user_name_def)

lemma user_name_fail:
  "\<not> init_flag u \<Longrightarrow> lookup_result os = None \<Longrightarrow>
   user_name os u = (user_name_str u, u, [Lock, Getuid, Getpwuid (getuid os), Unlock])"
  by (simp add: user_name_def compute_user_name_fail)

lemma user_name_success:
  "\<not> init_flag u \<Longrightarrow> lookup_result os = Some n \<Longrightarrow>
   user_name os u =
     (n, u\<lparr>user_name_str := n, init_flag := True\<rparr>, [Lock, Getuid, Getpwuid (getuid os), Unlock])"
  by (simp add: user_name_def compute_user_name_success)

lemma lookup_result_None_iff:
  "lookup_result os = None \<longleftrightarrow>
     getpwuid os (getuid os) = None
     \<or> (\<exists>p. getpwuid os (getuid os) = Some p \<and> pw_name p = None)"
  by (simp add: lookup_result_def split: option.splits)

lemma lookup_result_Some_iff:
  "lookup_result os = Some n \<longleftrightarrow>
     (\<exists>p. getpwuid os (getuid os) = Some p \<and> pw_name p = Some n)"
  by (simp add: lookup_result_def split: option.splits)

lemma user_name_events_uninit:
  "\<not> init_flag u \<Longrightarrow>
   events_of (user_name os u) = [Lock, Getuid, Getpwuid (getuid os), Unlock]"
  by (cases "lookup_result os") (simp_all add: user_name_fail user_name_success)

lemma user_name_init_after_success:
  "lookup_result os = Some n \<Longrightarrow> init_flag (state_of (user_name os u))"
  by (cases "init_flag u") (simp_all add: user_name_init user_name_success)

section \<open>Calls in sequence\<close>

lemma run_init:
  "init_flag u \<Longrightarrow> run envs u = (replicate (length envs) (user_name_str u), u, [])"
  by (induction envs) (simp_all add: user_name_init)

lemma run_all_fail:
  "\<not> init_flag u \<Longrightarrow> \<forall>os\<in>set envs. lookup_result os = None \<Longrightarrow>
   run envs u =
     (replicate (length envs) (user_name_str u), u,
      concat (map (\<lambda>os. [Lock, Getuid, Getpwuid (getuid os), Unlock]) envs))"
  by (induction envs) (simp_all add: user_name_fail)

lemma run_append:
  "run (xs @ ys) u =
     (result_of (run xs u) @ result_of (run ys (state_of (run xs u))),
      state_of (run ys (state_of (run xs u))),
      events_of (run xs u) @ events_of (run ys (state_of (run xs u))))"
  by (induction xs arbitrary: u) (simp_all add: split_beta Let_def)

lemma lookups_append: "lookups (tr @ tr') = lookups tr @ lookups tr'"
  by (induction tr rule: lookups.induct) simp_all

lemma lookups_concat_attempts:
  "lookups (concat (map (\<lambda>os. [Lock, Getuid, Getpwuid (getuid os), Unlock]) envs))
     = map getuid envs"
  by (induction envs) simp_all

lemma mutations_init: "init_flag u \<Longrightarrow> mutations envs u = 0"
  by (induction envs) (simp_all add: user_name_init)

lemma mutations_uninit:
  "\<not> init_flag u \<Longrightarrow>
   mutations envs u = (if \<exists>os\<in>set envs. lookup_result os \<noteq> None then 1 else 0)"
proof (induction envs)
  case Nil
  then show ?case by simp
next
  case (Cons os rest)
  show ?case
  proof (cases "lookup_result os")
    case None
    with Cons show ?thesis by (simp add: user_name_fail)
  next
    case (Some n)
    have changed: "u\<lparr>user_name_str := n, init_flag := True\<rparr> \<noteq> u"
      using Cons.prems by (metis UserUtil.select_convs(2) UserUtil.surjective UserUtil.update_convs(1,2))
    from Some Cons.prems changed show ?thesis
      by (simp add: user_name_success mutations_init)
  qed
qed

text \<open>
  In every state a sequence of calls can reach from construction, a false flag comes
  with an empty cached name.
\<close>

lemma user_name_keeps_empty:
  "init_flag u \<or> user_name_str u = [] \<Longrightarrow>
   init_flag (state_of (user_name os u)) \<or> user_name_str (state_of (user_name os u)) = []"
proof (cases "init_flag u")
  case True
  then show ?thesis by (simp add: user_name_init)
next
  case False
  assume "init_flag u \<or> user_name_str u = []"
  with False show ?thesis
    by (cases "lookup_result os") (simp_all add: user_name_fail user_name_success)
qed

lemma run_keeps_empty:
  "init_flag u \<or> user_name_str u = [] \<Longrightarrow>
   init_flag (state_of (run envs u)) \<or> user_name_str (state_of (run envs u)) = []"
proof (induction envs arbitrary: u)
  case Nil
  then show ?case by simp
next
  case (Cons os rest)
  from Cons.prems have "init_flag (state_of (user_name os u))
      \<or> user_name_str (state_of (user_name os u)) = []"
    by (rule user_name_keeps_empty)
  then have "init_flag (state_of (run rest (state_of (user_name os u))))
      \<or> user_name_str (state_of (run rest (state_of (user_name os u)))) = []"
    by (rule Cons.IH)
  then show ?case by (simp add: split_beta)
qed

lemma reachable_uninit_empty:
  "\<not> init_flag (state_of (run history UserUtil_init)) \<Longrightarrow>
   user_name_str (state_of (run history UserUtil_init)) = []"
  using run_keeps_empty [of UserUtil_init history] by (simp add: UserUtil_init_def)

text \<open>
  The lookups of a sequence of calls are those of the attempts up to and including the
  first successful one.
\<close>

lemma run_lookups_count:
  "length (lookups (events_of (run envs u)))
     = (if init_flag u then 0
        else min (length envs) (Suc (length (takeWhile (\<lambda>os. lookup_result os = None) envs))))"
proof (cases "init_flag u")
  case True
  then show ?thesis by (simp add: run_init)
next
  case False
  then have "length (lookups (events_of (run envs u)))
      = min (length envs) (Suc (length (takeWhile (\<lambda>os. lookup_result os = None) envs)))"
  proof (induction envs)
    case Nil
    then show ?case by simp
  next
    case (Cons os rest)
    show ?case
    proof (cases "lookup_result os")
      case None
      with Cons show ?thesis
        by (simp add: user_name_fail lookups_append split_beta)
    next
      case (Some n)
      with Cons.prems show ?thesis
        by (simp add: user_name_success run_init)
    qed
  qed
  with False show ?thesis by simp
qed

section \<open>The claims\<close>

text \<open>
  C1 (as amended). Every call that triggers resolution, that is every call in a state
  whose flag is false, asks the user database exactly once, and the user id it passes is
  the one \<^verbatim>\<open>getuid()\<close> returns: the real user id of the process. It is the
  effective user id exactly when the two coincide.
\<close>

theorem resolution_looks_up_real_uid:
  "\<not> init_flag u \<Longrightarrow>
   lookups (events_of (user_name os u)) = [real_uid os]
   \<and> (lookups (events_of (user_name os u)) = [geteuid os]
        \<longleftrightarrow> real_uid os = effective_uid os)"
  by (simp add: user_name_events_uninit getuid_def geteuid_def)

theorem resolution_looks_up_real_uid_witness:
  "\<not> init_flag UserUtil_init
   \<and> lookups (events_of (user_name os_alice UserUtil_init)) = [1000]
   \<and> lookups (events_of (user_name os_alice UserUtil_init)) = [geteuid os_alice]"
proof -
  have uninit: "\<not> init_flag UserUtil_init"
    by (simp add: UserUtil_init_def)
  from resolution_looks_up_real_uid [OF uninit, of os_alice] uninit show ?thesis
    by (simp add: os_alice_def geteuid_def)
qed

text \<open>
  C1 as stated fails in a set-user-id program: the process of \<open>os_setuid\<close> has the
  effective user id 0, and the id passed to the lookup is 1000, its real user id.
\<close>

theorem resolution_effective_uid_counterexample:
  "\<not> init_flag UserUtil_init
   \<and> geteuid os_setuid = 0
   \<and> lookups (events_of (user_name os_setuid UserUtil_init)) = [1000]
   \<and> lookups (events_of (user_name os_setuid UserUtil_init)) \<noteq> [geteuid os_setuid]"
  by (simp add: UserUtil_init_def os_setuid_def geteuid_def getuid_def getpwuid_def
      user_name_def compute_user_name_def)

text \<open>
  C2. In a state whose flag is true, \<open>user_name\<close> returns the cached name at once: the
  state is unchanged, the mutex is not taken and the operating system is not asked. In
  every other state it runs the resolution step \<open>compute_user_name\<close>: the call's
  events and final state are those of the step, the lookup happens while the mutex is
  held, the mutex is released at the end, and the result is the name cached in the state
  the step leaves (the name cached before, when the lookup found nothing).
\<close>

theorem user_name_contract:
  "(init_flag u \<longrightarrow> user_name os u = (user_name_str u, u, []))
   \<and> (\<not> init_flag u \<longrightarrow>
        state_of (user_name os u) = fst (compute_user_name os u)
      \<and> events_of (user_name os u) = snd (compute_user_name os u)
      \<and> events_of (user_name os u) = [Lock, Getuid, Getpwuid (getuid os), Unlock]
      \<and> under_lock (events_of (user_name os u))
      \<and> result_of (user_name os u) = user_name_str (fst (compute_user_name os u))
      \<and> (lookup_result os = None \<longrightarrow> result_of (user_name os u) = user_name_str u))"
proof (cases "init_flag u")
  case True
  then show ?thesis by (simp add: user_name_init)
next
  case False
  show ?thesis
  proof (cases "lookup_result os")
    case None
    with False show ?thesis
      by (simp add: user_name_fail compute_user_name_fail under_lock_def)
  next
    case (Some n)
    with False show ?thesis
      by (simp add: user_name_success compute_user_name_success under_lock_def)
  qed
qed

theorem user_name_contract_witness:
  "init_flag \<lparr>user_name_str = ''bob'', init_flag = True\<rparr>
   \<and> user_name os_alice \<lparr>user_name_str = ''bob'', init_flag = True\<rparr>
       = (''bob'', \<lparr>user_name_str = ''bob'', init_flag = True\<rparr>, [])
   \<and> \<not> init_flag UserUtil_init
   \<and> result_of (user_name os_alice UserUtil_init) = ''alice''
   \<and> events_of (user_name os_alice UserUtil_init) = [Lock, Getuid, Getpwuid 1000, Unlock]
   \<and> under_lock (events_of (user_name os_alice UserUtil_init))
   \<and> lookup_result os_down = None
   \<and> result_of (user_name os_down UserUtil_init) = []"
proof -
  have uninit: "\<not> init_flag UserUtil_init"
    by (simp add: UserUtil_init_def)
  have down: "lookup_result os_down = None"
    by (simp add: lookup_result_def os_down_def getpwuid_def)
  have alice: "fst (compute_user_name os_alice UserUtil_init)
      = \<lparr>user_name_str = ''alice'', init_flag = True\<rparr>"
    by (simp add: compute_user_name_def UserUtil_init_def os_alice_def getuid_def getpwuid_def)
  have uid: "getuid os_alice = 1000"
    by (simp add: getuid_def os_alice_def)
  have cached: "user_name os_alice \<lparr>user_name_str = ''bob'', init_flag = True\<rparr>
       = (''bob'', \<lparr>user_name_str = ''bob'', init_flag = True\<rparr>, [])"
    using user_name_contract [of "\<lparr>user_name_str = ''bob'', init_flag = True\<rparr>" os_alice]
    by simp
  note step = user_name_contract [of UserUtil_init os_alice, THEN conjunct2, THEN mp, OF uninit]
  from step have ev: "events_of (user_name os_alice UserUtil_init)
      = [Lock, Getuid, Getpwuid (getuid os_alice), Unlock]"
    by blast
  from step have held: "under_lock (events_of (user_name os_alice UserUtil_init))"
    by blast
  from step have "result_of (user_name os_alice UserUtil_init)
      = user_name_str (fst (compute_user_name os_alice UserUtil_init))"
    by blast
  with alice have res: "result_of (user_name os_alice UserUtil_init) = ''alice''"
    by simp
  note resolved = res ev [unfolded uid] held
  note step' = user_name_contract [of UserUtil_init os_down, THEN conjunct2, THEN mp, OF uninit]
  from step' down
  have "result_of (user_name os_down UserUtil_init) = user_name_str UserUtil_init"
    by blast
  then have failed: "result_of (user_name os_down UserUtil_init) = []"
    by (simp add: UserUtil_init_def)
  from uninit down cached resolved failed show ?thesis
    by simp
qed

text \<open>
  C3. In a state whose flag is false and whose cached name is empty, a lookup that
  returns no entry, or an entry with a null name, leaves the state as it was: the flag
  is still false, the cached name is still empty, and \<open>user_name\<close> returns the empty
  string. Every state with a false flag that calls from construction can reach is such a
  state. The result is a plain string: there is no error value, and the call's events
  are those of an ordinary attempt.
\<close>

theorem failed_lookup_leaves_state:
  assumes "getpwuid os (getuid os) = None
         \<or> (\<exists>p. getpwuid os (getuid os) = Some p \<and> pw_name p = None)"
  shows "(\<not> init_flag u \<and> user_name_str u = [] \<longrightarrow>
            \<not> init_flag (state_of (user_name os u))
          \<and> user_name_str (state_of (user_name os u)) = []
          \<and> state_of (user_name os u) = u
          \<and> fst (compute_user_name os u) = u
          \<and> result_of (user_name os u) = []
          \<and> events_of (user_name os u) = [Lock, Getuid, Getpwuid (getuid os), Unlock])
       \<and> (\<not> init_flag (state_of (run history UserUtil_init)) \<longrightarrow>
            user_name os (state_of (run history UserUtil_init))
              = ([], state_of (run history UserUtil_init),
                 [Lock, Getuid, Getpwuid (getuid os), Unlock])
          \<and> user_name_str (state_of (run history UserUtil_init)) = [])"
proof -
  from assms have fail: "lookup_result os = None"
    by (simp add: lookup_result_None_iff)
  have one: "\<not> init_flag (state_of (user_name os v))"
      "user_name_str (state_of (user_name os v)) = []"
      "state_of (user_name os v) = v"
      "fst (compute_user_name os v) = v"
      "result_of (user_name os v) = []"
      "events_of (user_name os v) = [Lock, Getuid, Getpwuid (getuid os), Unlock]"
      "user_name os v = ([], v, [Lock, Getuid, Getpwuid (getuid os), Unlock])"
    if "\<not> init_flag v" and "user_name_str v = []" for v
    using that fail by (simp_all add: user_name_fail compute_user_name_fail)
  have "user_name_str (state_of (run history UserUtil_init)) = []"
    if "\<not> init_flag (state_of (run history UserUtil_init))"
    using that by (rule reachable_uninit_empty)
  with one [of u] one(7) [of "state_of (run history UserUtil_init)"] show ?thesis
    by blast
qed

theorem failed_lookup_leaves_state_witness:
  "(\<not> init_flag UserUtil_init \<and> user_name_str UserUtil_init = []
      \<and> getpwuid os_down (getuid os_down) = None
      \<and> user_name os_down UserUtil_init
          = ([], UserUtil_init, [Lock, Getuid, Getpwuid 1000, Unlock]))
   \<and> (getpwuid os_noname (getuid os_noname) = Some \<lparr>pw_name = None, pw_uid = 1000\<rparr>
      \<and> \<not> init_flag (state_of (run [os_down] UserUtil_init))
      \<and> user_name os_noname (state_of (run [os_down] UserUtil_init))
          = ([], UserUtil_init, [Lock, Getuid, Getpwuid 1000, Unlock]))"
proof -
  have uninit: "\<not> init_flag UserUtil_init" and empty: "user_name_str UserUtil_init = []"
    by (simp_all add: UserUtil_init_def)
  have down: "getpwuid os_down (getuid os_down) = None"
    by (simp add: getpwuid_def os_down_def)
  have noname: "getpwuid os_noname (getuid os_noname) = Some \<lparr>pw_name = None, pw_uid = 1000\<rparr>"
    by (simp add: getpwuid_def getuid_def os_noname_def)
  have uids: "getuid os_down = 1000" "getuid os_noname = 1000"
    by (simp_all add: getuid_def os_down_def os_noname_def)
  have after: "state_of (run [os_down] UserUtil_init) = UserUtil_init"
    by (simp add: user_name_def compute_user_name_def UserUtil_init_def getpwuid_def os_down_def)
  have a: "user_name os_down UserUtil_init
      = ([], UserUtil_init, [Lock, Getuid, Getpwuid 1000, Unlock])"
    using failed_lookup_leaves_state [of os_down UserUtil_init, THEN conjunct1] down uninit empty
      uids
    by (simp add: prod_eq_iff)
  have b: "user_name os_noname (state_of (run [os_down] UserUtil_init))
      = ([], UserUtil_init, [Lock, Getuid, Getpwuid 1000, Unlock])"
    using failed_lookup_leaves_state [of os_noname UserUtil_init "[os_down]", THEN conjunct2]
      noname uninit uids after
    by simp
  from uninit empty down noname a b after show ?thesis by simp
qed

text \<open>
  C4. Once the flag is true the state is frozen: a call of \<open>user_name\<close>, a call of
  the resolution step and any sequence of calls leave the cached name and the flag as
  they are. In a sequence of calls from any state, the number of calls that change the
  state is one when the flag is false at the start and some call's lookup succeeds, and
  zero otherwise: the only change is the one made by the first successful resolution.
\<close>

theorem initialized_state_never_changes:
  "(init_flag u \<longrightarrow>
        state_of (user_name os u) = u
      \<and> fst (compute_user_name os u) = u
      \<and> state_of (run envs u) = u)
   \<and> mutations envs u
       = (if \<not> init_flag u \<and> (\<exists>os\<in>set envs. lookup_result os \<noteq> None) then 1 else 0)
   \<and> (\<not> init_flag u \<longrightarrow> (\<forall>os\<in>set pre. lookup_result os = None) \<longrightarrow>
        lookup_result os = Some n \<longrightarrow>
        state_of (run (pre @ os # post) u) = u\<lparr>user_name_str := n, init_flag := True\<rparr>)"
proof (intro conjI impI)
  assume "init_flag u"
  then show "state_of (user_name os u) = u" "fst (compute_user_name os u) = u"
      "state_of (run envs u) = u"
    by (simp_all add: user_name_init compute_user_name_init run_init)
next
  show "mutations envs u
       = (if \<not> init_flag u \<and> (\<exists>os\<in>set envs. lookup_result os \<noteq> None) then 1 else 0)"
    by (cases "init_flag u") (simp_all add: mutations_init mutations_uninit)
next
  assume uninit: "\<not> init_flag u" and pre: "\<forall>os\<in>set pre. lookup_result os = None"
    and ok: "lookup_result os = Some n"
  from uninit pre have "state_of (run pre u) = u"
    by (simp add: run_all_fail)
  moreover from uninit ok
  have "state_of (run (os # post) u) = u\<lparr>user_name_str := n, init_flag := True\<rparr>"
    by (simp add: user_name_success run_init)
  ultimately show "state_of (run (pre @ os # post) u)
      = u\<lparr>user_name_str := n, init_flag := True\<rparr>"
    by (simp add: run_append)
qed

theorem initialized_state_never_changes_witness:
  "init_flag \<lparr>user_name_str = ''bob'', init_flag = True\<rparr>
   \<and> state_of (run [os_alice, os_down, os_setuid] \<lparr>user_name_str = ''bob'', init_flag = True\<rparr>)
       = \<lparr>user_name_str = ''bob'', init_flag = True\<rparr>
   \<and> mutations [os_down, os_alice, os_setuid] UserUtil_init = 1
   \<and> state_of (run [os_down, os_alice, os_setuid] UserUtil_init)
       = \<lparr>user_name_str = ''alice'', init_flag = True\<rparr>"
proof -
  let ?bob = "\<lparr>user_name_str = ''bob'', init_flag = True\<rparr>"
  have uninit: "\<not> init_flag UserUtil_init"
    by (simp add: UserUtil_init_def)
  have down: "lookup_result os_down = None"
    by (simp add: lookup_result_def os_down_def getpwuid_def)
  have alice: "lookup_result os_alice = Some ''alice''"
    by (simp add: lookup_result_def os_alice_def getpwuid_def getuid_def)
  note frozen = initialized_state_never_changes
      [of ?bob os_alice "[os_alice, os_down, os_setuid]", THEN conjunct1, THEN mp]
  have a: "state_of (run [os_alice, os_down, os_setuid] ?bob) = ?bob"
    using frozen by simp
  note rest = initialized_state_never_changes
      [of UserUtil_init os_alice "[os_down, os_alice, os_setuid]" "[os_down]" "''alice''"
          "[os_setuid]", THEN conjunct2]
  from rest [THEN conjunct1] uninit alice
  have b: "mutations [os_down, os_alice, os_setuid] UserUtil_init = 1"
    by auto
  from rest [THEN conjunct2] uninit down alice
  have c: "state_of (run [os_down, os_alice, os_setuid] UserUtil_init)
       = \<lparr>user_name_str = ''alice'', init_flag = True\<rparr>"
    by (simp add: UserUtil_init_def)
  from a b c show ?thesis by simp
qed

text \<open>
  C5. After a resolution attempt has succeeded, no later call of \<open>user_name\<close> asks
  the operating system again. In a state whose flag is true a sequence of calls has no
  event at all. In any sequence of calls, the calls after one whose lookup succeeds add
  no event, and the flag is true from that call on. When the first attempt of a process
  succeeds, the whole sequence contains exactly one lookup. In general the number of
  lookups of a sequence of calls is the number of attempts up to and including the first
  successful one: at most one lookup succeeds, and none follows it.
\<close>

theorem no_lookup_after_success:
  "(init_flag u \<longrightarrow> events_of (run envs u) = [])
   \<and> (lookup_result os = Some n \<longrightarrow>
        init_flag (state_of (run (pre @ [os]) u))
      \<and> events_of (run (pre @ os # post) u) = events_of (run (pre @ [os]) u)
      \<and> lookups (events_of (run (pre @ os # post) u))
          = lookups (events_of (run (pre @ [os]) u)))
   \<and> (\<not> init_flag u \<longrightarrow> lookup_result os = Some n \<longrightarrow>
        lookups (events_of (run (os # post) u)) = [getuid os])
   \<and> length (lookups (events_of (run envs u)))
       = (if init_flag u then 0
          else min (length envs)
                 (Suc (length (takeWhile (\<lambda>os. lookup_result os = None) envs))))"
proof (intro conjI impI)
  assume "init_flag u"
  then show "events_of (run envs u) = []"
    by (simp add: run_init)
next
  show "length (lookups (events_of (run envs u)))
       = (if init_flag u then 0
          else min (length envs)
                 (Suc (length (takeWhile (\<lambda>os. lookup_result os = None) envs))))"
    by (rule run_lookups_count)
next
  assume ok: "lookup_result os = Some n"
  then have after: "init_flag (state_of (user_name os (state_of (run pre u))))"
    by (rule user_name_init_after_success)
  then show "init_flag (state_of (run (pre @ [os]) u))"
    by (simp add: run_append split_beta)
  from after show same: "events_of (run (pre @ os # post) u) = events_of (run (pre @ [os]) u)"
    by (simp add: run_append split_beta run_init)
  then show "lookups (events_of (run (pre @ os # post) u))
          = lookups (events_of (run (pre @ [os]) u))"
    by simp
next
  assume "\<not> init_flag u" and "lookup_result os = Some n"
  then show "lookups (events_of (run (os # post) u)) = [getuid os]"
    by (simp add: user_name_success run_init)
qed

theorem no_lookup_after_success_witness:
  "init_flag \<lparr>user_name_str = ''bob'', init_flag = True\<rparr>
   \<and> events_of (run [os_alice, os_down] \<lparr>user_name_str = ''bob'', init_flag = True\<rparr>) = []
   \<and> \<not> init_flag UserUtil_init
   \<and> lookup_result os_alice = Some ''alice''
   \<and> events_of (run [os_down, os_alice, os_setuid, os_down] UserUtil_init)
       = events_of (run [os_down, os_alice] UserUtil_init)
   \<and> lookups (events_of (run [os_alice, os_setuid, os_down] UserUtil_init)) = [1000]"
proof -
  let ?bob = "\<lparr>user_name_str = ''bob'', init_flag = True\<rparr>"
  have uninit: "\<not> init_flag UserUtil_init"
    by (simp add: UserUtil_init_def)
  have alice: "lookup_result os_alice = Some ''alice''"
    by (simp add: lookup_result_def os_alice_def getpwuid_def getuid_def)
  have uid: "getuid os_alice = 1000"
    by (simp add: getuid_def os_alice_def)
  have a: "events_of (run [os_alice, os_down] ?bob) = []"
    using no_lookup_after_success [of ?bob "[os_alice, os_down]", THEN conjunct1]
    by simp
  have b: "events_of (run [os_down, os_alice, os_setuid, os_down] UserUtil_init)
       = events_of (run [os_down, os_alice] UserUtil_init)"
    using no_lookup_after_success [of UserUtil_init "[]" os_alice "''alice''" "[os_down]"
        "[os_setuid, os_down]", THEN conjunct2, THEN conjunct1, THEN mp, OF alice]
    by simp
  have c: "lookups (events_of (run [os_alice, os_setuid, os_down] UserUtil_init)) = [1000]"
    using no_lookup_after_success [of UserUtil_init "[]" os_alice "''alice''" "[]"
        "[os_setuid, os_down]", THEN conjunct2, THEN conjunct2, THEN conjunct1, THEN mp, THEN mp,
        OF uninit alice]
      uid
    by simp
  from uninit alice a b c show ?thesis by simp
qed

text \<open>
  C6. In a state whose flag is false every call of \<open>user_name\<close> performs the lookup.
  A failed attempt leaves the flag false, so however many attempts have failed, each
  call so far has done its own lookup, and the next call looks up again: when that
  lookup succeeds, the call returns the name found and caches it.
\<close>

theorem uninitialized_call_retries:
  "\<not> init_flag u \<Longrightarrow>
     lookups (events_of (user_name os u)) = [getuid os]
   \<and> ((\<forall>e\<in>set pre. lookup_result e = None) \<longrightarrow>
          \<not> init_flag (state_of (run pre u))
        \<and> lookups (events_of (run pre u)) = map getuid pre
        \<and> lookups (events_of (run (pre @ [os]) u)) = map getuid pre @ [getuid os]
        \<and> (lookup_result os = Some n \<longrightarrow>
              result_of (run (pre @ [os]) u) = replicate (length pre) (user_name_str u) @ [n]
            \<and> state_of (run (pre @ [os]) u) = u\<lparr>user_name_str := n, init_flag := True\<rparr>))"
proof (intro conjI impI)
  assume uninit: "\<not> init_flag u"
  then show "lookups (events_of (user_name os u)) = [getuid os]"
    by (simp add: user_name_events_uninit)
  assume pre: "\<forall>e\<in>set pre. lookup_result e = None"
  with uninit have runpre: "run pre u =
     (replicate (length pre) (user_name_str u), u,
      concat (map (\<lambda>os. [Lock, Getuid, Getpwuid (getuid os), Unlock]) pre))"
    by (rule run_all_fail)
  from runpre uninit show "\<not> init_flag (state_of (run pre u))"
    by simp
  from runpre show "lookups (events_of (run pre u)) = map getuid pre"
    by (simp add: lookups_concat_attempts)
  from runpre uninit
  show "lookups (events_of (run (pre @ [os]) u)) = map getuid pre @ [getuid os]"
    by (simp add: run_append split_beta lookups_append lookups_concat_attempts
        user_name_events_uninit)
  assume ok: "lookup_result os = Some n"
  from runpre uninit ok
  show "result_of (run (pre @ [os]) u) = replicate (length pre) (user_name_str u) @ [n]"
    by (simp add: run_append user_name_success)
  from runpre uninit ok
  show "state_of (run (pre @ [os]) u) = u\<lparr>user_name_str := n, init_flag := True\<rparr>"
    by (simp add: run_append user_name_success)
qed

theorem uninitialized_call_retries_witness:
  "\<not> init_flag UserUtil_init
   \<and> lookup_result os_down = None \<and> lookup_result os_noname = None
   \<and> lookup_result os_alice = Some ''alice''
   \<and> lookups (events_of (run [os_down, os_noname, os_alice] UserUtil_init)) = [1000, 1000, 1000]
   \<and> result_of (run [os_down, os_noname, os_alice] UserUtil_init) = [[], [], ''alice'']"
proof -
  have uninit: "\<not> init_flag UserUtil_init"
    by (simp add: UserUtil_init_def)
  have fails: "\<forall>e\<in>set [os_down, os_noname]. lookup_result e = None"
    by (simp add: lookup_result_def os_down_def os_noname_def getpwuid_def)
  have alice: "lookup_result os_alice = Some ''alice''"
    by (simp add: lookup_result_def os_alice_def getpwuid_def getuid_def)
  have uids: "getuid os_down = 1000" "getuid os_noname = 1000" "getuid os_alice = 1000"
    by (simp_all add: getuid_def os_down_def os_noname_def os_alice_def)
  note retry = uninitialized_call_retries [OF uninit, of os_alice "[os_down, os_noname]"
      "''alice''", THEN conjunct2, THEN mp, OF fails]
  from retry have "lookups (events_of (run ([os_down, os_noname] @ [os_alice]) UserUtil_init))
      = map getuid [os_down, os_noname] @ [getuid os_alice]"
    by blast
  with uids have a: "lookups (events_of (run [os_down, os_noname, os_alice] UserUtil_init))
      = [1000, 1000, 1000]"
    by simp
  from retry alice have "result_of (run ([os_down, os_noname] @ [os_alice]) UserUtil_init)
      = replicate (length [os_down, os_noname]) (user_name_str UserUtil_init) @ [''alice'']"
    by blast
  then have b: "result_of (run [os_down, os_noname, os_alice] UserUtil_init) = [[], [], ''alice'']"
    by (simp add: UserUtil_init_def)
  from uninit fails alice a b show ?thesis by simp
qed

text \<open>
  C7 (as amended). Two calls of \<open>user_name\<close> in sequence return the same string when
  the flag is true before the first call, or the first call's lookup succeeds, or the
  second call's lookup fails; in particular whenever the operating system answers both
  calls from the same environment.
\<close>

theorem user_name_twice_same:
  "(init_flag u \<or> lookup_result os1 \<noteq> None \<or> lookup_result os2 = None \<longrightarrow>
      result_of (user_name os2 (state_of (user_name os1 u))) = result_of (user_name os1 u))
   \<and> result_of (user_name os (state_of (user_name os u))) = result_of (user_name os u)"
proof -
  have twice: "result_of (user_name b (state_of (user_name a u))) = result_of (user_name a u)"
    if "init_flag u \<or> lookup_result a \<noteq> None \<or> lookup_result b = None" for a b
  proof (cases "init_flag u")
    case True
    then show ?thesis by (simp add: user_name_init)
  next
    case False
    show ?thesis
    proof (cases "lookup_result a")
      case None
      with that False have "lookup_result b = None" by simp
      with None False show ?thesis by (simp add: user_name_fail)
    next
      case (Some n)
      with False show ?thesis by (simp add: user_name_success user_name_init)
    qed
  qed
  have "init_flag u \<or> lookup_result os \<noteq> None \<or> lookup_result os = None"
    by blast
  then have "result_of (user_name os (state_of (user_name os u))) = result_of (user_name os u)"
    by (rule twice)
  with twice [of os1 os2] show ?thesis by blast
qed

theorem user_name_twice_same_witness:
  "lookup_result os_alice \<noteq> None
   \<and> result_of (user_name os_down (state_of (user_name os_alice UserUtil_init))) = ''alice''
   \<and> result_of (user_name os_alice UserUtil_init) = ''alice''"
proof -
  have alice: "lookup_result os_alice \<noteq> None"
    by (simp add: lookup_result_def os_alice_def getpwuid_def getuid_def)
  have first: "result_of (user_name os_alice UserUtil_init) = ''alice''"
    by (simp add: user_name_def compute_user_name_def UserUtil_init_def os_alice_def
        getpwuid_def getuid_def)
  from user_name_twice_same [of UserUtil_init os_alice os_down, THEN conjunct1] alice
  have "result_of (user_name os_down (state_of (user_name os_alice UserUtil_init)))
      = result_of (user_name os_alice UserUtil_init)"
    by blast
  with alice first show ?thesis by simp
qed

text \<open>
  C7 as stated fails when the user database changes between the two calls: the first
  call finds no entry and returns the empty string, the second finds \<open>alice\<close>.
\<close>

theorem user_name_twice_counterexample:
  "result_of (user_name os_down UserUtil_init) = []
   \<and> result_of (user_name os_alice (state_of (user_name os_down UserUtil_init))) = ''alice''
   \<and> result_of (user_name os_alice (state_of (user_name os_down UserUtil_init)))
       \<noteq> result_of (user_name os_down UserUtil_init)"
  by (simp add: user_name_def compute_user_name_def UserUtil_init_def os_down_def os_alice_def
      getpwuid_def getuid_def)

text \<open>
  C8. When no lookup ever succeeds, every call of \<open>user_name\<close> returns the empty
  string, however often it is called: from a state with the flag false and no cached
  name (the state of a process none of whose lookups has succeeded), a sequence of calls
  whose lookups all fail returns the empty string each time and ends in the same state.
\<close>

theorem always_failing_lookup_returns_empty:
  "\<not> init_flag u \<Longrightarrow> user_name_str u = [] \<Longrightarrow> \<forall>os\<in>set envs. lookup_result os = None \<Longrightarrow>
     result_of (run envs u) = replicate (length envs) []
   \<and> (\<forall>r\<in>set (result_of (run envs u)). r = [])
   \<and> length (result_of (run envs u)) = length envs
   \<and> state_of (run envs u) = u"
  by (simp add: run_all_fail)

theorem always_failing_lookup_returns_empty_witness:
  "\<not> init_flag UserUtil_init \<and> user_name_str UserUtil_init = []
   \<and> lookup_result os_down = None \<and> lookup_result os_noname = None
   \<and> result_of (run [os_down, os_noname, os_down] UserUtil_init) = [[], [], []]"
proof -
  have uninit: "\<not> init_flag UserUtil_init" and empty: "user_name_str UserUtil_init = []"
    by (simp_all add: UserUtil_init_def)
  have fails: "\<forall>os\<in>set [os_down, os_noname, os_down]. lookup_result os = None"
    by (simp add: lookup_result_def os_down_def os_noname_def getpwuid_def)
  from always_failing_lookup_returns_empty [OF uninit empty fails]
  have "result_of (run [os_down, os_noname, os_down] UserUtil_init) = [[], [], []]"
    by (simp add: numeral_3_eq_3)
  with uninit empty fails show ?thesis by simp
qed

text \<open>
  C10. From a state whose flag is false, the resolution step sets the flag exactly when
  \<^verbatim>\<open>getpwuid\<close> returns an entry whose name pointer is not null, and it then caches
  that name whatever it is. An entry whose name is the empty string therefore counts as
  a success: the empty string is cached, the flag is true, and that call and every later
  call return the empty string, with one lookup in all.
\<close>

theorem success_is_non_null_entry_and_name:
  "\<not> init_flag u \<Longrightarrow>
     (init_flag (fst (compute_user_name os u))
        \<longleftrightarrow> (\<exists>p n. getpwuid os (getuid os) = Some p \<and> pw_name p = Some n))
   \<and> (\<forall>p n. getpwuid os (getuid os) = Some p \<and> pw_name p = Some n \<longrightarrow>
          fst (compute_user_name os u) = u\<lparr>user_name_str := n, init_flag := True\<rparr>)
   \<and> (\<forall>p. getpwuid os (getuid os) = Some p \<and> pw_name p = Some [] \<longrightarrow>
          state_of (user_name os u) = u\<lparr>user_name_str := [], init_flag := True\<rparr>
        \<and> result_of (run (os # later) u) = replicate (Suc (length later)) []
        \<and> events_of (run (os # later) u) = [Lock, Getuid, Getpwuid (getuid os), Unlock]
        \<and> lookups (events_of (run (os # later) u)) = [getuid os]
        \<and> events_of (run later (state_of (user_name os u))) = [])"
proof (intro conjI allI impI)
  assume uninit: "\<not> init_flag u"
  show "init_flag (fst (compute_user_name os u))
        \<longleftrightarrow> (\<exists>p n. getpwuid os (getuid os) = Some p \<and> pw_name p = Some n)"
  proof (cases "lookup_result os")
    case None
    with uninit show ?thesis
      by (auto simp add: compute_user_name_fail lookup_result_None_iff)
  next
    case (Some n)
    with uninit show ?thesis
      by (auto simp add: compute_user_name_success lookup_result_Some_iff)
  qed
next
  fix p n
  assume uninit: "\<not> init_flag u"
    and "getpwuid os (getuid os) = Some p \<and> pw_name p = Some n"
  then have "lookup_result os = Some n"
    by (auto simp add: lookup_result_Some_iff)
  with uninit show "fst (compute_user_name os u) = u\<lparr>user_name_str := n, init_flag := True\<rparr>"
    by (simp add: compute_user_name_success)
next
  fix p
  assume uninit: "\<not> init_flag u"
    and "getpwuid os (getuid os) = Some p \<and> pw_name p = Some []"
  then have blank: "lookup_result os = Some []"
    by (auto simp add: lookup_result_Some_iff)
  from uninit blank
  show "state_of (user_name os u) = u\<lparr>user_name_str := [], init_flag := True\<rparr>"
    and "result_of (run (os # later) u) = replicate (Suc (length later)) []"
    and "events_of (run (os # later) u) = [Lock, Getuid, Getpwuid (getuid os), Unlock]"
    and "lookups (events_of (run (os # later) u)) = [getuid os]"
    and "events_of (run later (state_of (user_name os u))) = []"
    by (simp_all add: user_name_success run_init)
qed

theorem success_is_non_null_entry_and_name_witness:
  "\<not> init_flag UserUtil_init
   \<and> getpwuid os_blank (getuid os_blank) = Some \<lparr>pw_name = Some [], pw_uid = 1000\<rparr>
   \<and> init_flag (fst (compute_user_name os_blank UserUtil_init))
   \<and> state_of (user_name os_blank UserUtil_init) = \<lparr>user_name_str = [], init_flag = True\<rparr>
   \<and> result_of (run [os_blank, os_alice, os_alice] UserUtil_init) = [[], [], []]
   \<and> lookups (events_of (run [os_blank, os_alice, os_alice] UserUtil_init)) = [1000]
   \<and> \<not> init_flag (fst (compute_user_name os_noname UserUtil_init))"
proof -
  have uninit: "\<not> init_flag UserUtil_init"
    by (simp add: UserUtil_init_def)
  have blank: "getpwuid os_blank (getuid os_blank) = Some \<lparr>pw_name = Some [], pw_uid = 1000\<rparr>"
    by (simp add: getpwuid_def getuid_def os_blank_def)
  have noname: "getpwuid os_noname (getuid os_noname) = Some \<lparr>pw_name = None, pw_uid = 1000\<rparr>"
    by (simp add: getpwuid_def getuid_def os_noname_def)
  have uid: "getuid os_blank = 1000"
    by (simp add: getuid_def os_blank_def)
  note ok = success_is_non_null_entry_and_name [OF uninit, of os_blank "[os_alice, os_alice]"]
  from ok [THEN conjunct1] blank
  have a: "init_flag (fst (compute_user_name os_blank UserUtil_init))"
    by simp
  have name: "pw_name \<lparr>pw_name = Some [], pw_uid = 1000 :: uid_t\<rparr> = Some []"
    by simp
  from ok [THEN conjunct2, THEN conjunct2, THEN spec, THEN mp, OF conjI, OF blank name]
  have all: "state_of (user_name os_blank UserUtil_init)
        = UserUtil_init\<lparr>user_name_str := [], init_flag := True\<rparr>
      \<and> result_of (run (os_blank # [os_alice, os_alice]) UserUtil_init)
        = replicate (Suc (length [os_alice, os_alice])) []
      \<and> lookups (events_of (run (os_blank # [os_alice, os_alice]) UserUtil_init))
        = [getuid os_blank]"
    by blast
  from all have b: "state_of (user_name os_blank UserUtil_init)
      = \<lparr>user_name_str = [], init_flag = True\<rparr>"
    by (simp add: UserUtil_init_def)
  from all have c: "result_of (run [os_blank, os_alice, os_alice] UserUtil_init) = [[], [], []]"
    by (simp add: numeral_3_eq_3)
  from all uid
  have d: "lookups (events_of (run [os_blank, os_alice, os_alice] UserUtil_init)) = [1000]"
    by simp
  from success_is_non_null_entry_and_name [OF uninit, of os_noname, THEN conjunct1] noname
  have e: "\<not> init_flag (fst (compute_user_name os_noname UserUtil_init))"
    by simp
  from uninit blank a b c d e show ?thesis by simp
qed

end
